theory Spec2Isabelle
  imports Complex_Main "HOL-Library.Char_ord" "HOL-Library.List_Lexorder" "HOL-Library.Multiset"
begin

section \<open>Dust: the package usage tracker of \<^verbatim>\<open>dust_tracker.py\<close>\<close>

text \<open>
  The development embeds the tracking engine of class \<^verbatim>\<open>DustTracker\<close>: the two SQLite
  tables, the reconcile pass (\<^verbatim>\<open>scan_installed_packages\<close>, \<^verbatim>\<open>_save_package\<close>), the
  correlate pass (\<^verbatim>\<open>scan_running_processes\<close>), the derived view
  (\<^verbatim>\<open>get_package_stats\<close>) and the two places that run a scan cycle
  (\<^verbatim>\<open>do_GET\<close> on \<^verbatim>\<open>/api/scan\<close>, \<^verbatim>\<open>main\<close> with \<^verbatim>\<open>--scan-only\<close>).

  What lies outside the file is an input of the model: the decoded output of each
  \<^verbatim>\<open>pacman\<close> call (or the exception it raised), the listing of \<^verbatim>\<open>/proc\<close>, and the
  readings of the clock.
\<close>

subsection \<open>Exceptions\<close>

text \<open>
  The exception classes the source distinguishes. \<^verbatim>\<open>OSError\<close> stands for itself and its
  subclasses (\<^verbatim>\<open>PermissionError\<close>, and \<^verbatim>\<open>FileNotFoundError\<close>, which
  \<^verbatim>\<open>subprocess.check_output\<close> raises when there is no \<^verbatim>\<open>pacman\<close> executable);
  \<^verbatim>\<open>OtherError\<close> is any other exception (a \<^verbatim>\<open>UnicodeDecodeError\<close> of
  \<^verbatim>\<open>decode\<close>, say).
\<close>

datatype py_error = KeyError | IndexError | CalledProcessError | OSError | OtherError

subsection \<open>The string operations used by the scans\<close>

text \<open>
  A string is a list of characters, each the code point of a character of the Python
  string; the model covers text whose code points are below 256. \<^verbatim>\<open>str.strip()\<close> and
  \<^verbatim>\<open>str.split()\<close> cut at the characters of which \<^verbatim>\<open>str.isspace()\<close> is true: below
  256 these are the code points 9 to 13, 28 to 32, 133 (U+0085) and 160 (U+00A0).
\<close>

definition is_space :: "char \<Rightarrow> bool" where
  "is_space c = (let n = (of_char c :: nat) in
     (9 \<le> n \<and> n \<le> 13) \<or> (28 \<le> n \<and> n \<le> 32) \<or> n = 133 \<or> n = 160)"

definition strip :: "string \<Rightarrow> string" where
  "strip s = rev (dropWhile is_space (rev (dropWhile is_space s)))"

definition startswith :: "string \<Rightarrow> string \<Rightarrow> bool" where
  "startswith s p = (take (length p) s = p)"

text \<open>\<^verbatim>\<open>s.split(sep)\<close> for a one-character separator: never an empty list.\<close>

fun split_on :: "char \<Rightarrow> string \<Rightarrow> string list" where
  "split_on sep [] = [[]]"
| "split_on sep (c # cs) =
     (if c = sep then [] # split_on sep cs
      else (case split_on sep cs of [] \<Rightarrow> [[c]] | w # ws \<Rightarrow> (c # w) # ws))"

text \<open>\<^verbatim>\<open>line.split(':', 1)[1]\<close>: the text after the first colon, \<^verbatim>\<open>IndexError\<close> without one.\<close>

fun after_colon :: "string \<Rightarrow> py_error + string" where
  "after_colon [] = Inl IndexError"
| "after_colon (c # cs) = (if c = CHR '':'' then Inr cs else after_colon cs)"

text \<open>\<^verbatim>\<open>s.split()\<close>: the maximal runs of characters that are not white space.\<close>

fun split_acc :: "string \<Rightarrow> string \<Rightarrow> string list" where
  "split_acc cur [] = (if cur = [] then [] else [rev cur])"
| "split_acc cur (c # cs) =
     (if is_space c then (if cur = [] then split_acc [] cs else rev cur # split_acc [] cs)
      else split_acc (c # cur) cs)"

definition split_ws :: "string \<Rightarrow> string list" where
  "split_ws s = split_acc [] s"

text \<open>\<^verbatim>\<open>xs[i]\<close> for a non-negative index.\<close>

definition index :: "'a list \<Rightarrow> nat \<Rightarrow> py_error + 'a" where
  "index xs i = (if i < length xs then Inr (xs ! i) else Inl IndexError)"

text \<open>
  \<^verbatim>\<open>str.isdigit()\<close>: the string is not empty and each of its characters is a digit.
  Below 256 the digits are the code points 48 to 57 and the superscripts 178 (U+00B2),
  179 (U+00B3) and 185 (U+00B9).
\<close>

definition is_digit_char :: "char \<Rightarrow> bool" where
  "is_digit_char c = (let n = (of_char c :: nat) in
     (48 \<le> n \<and> n \<le> 57) \<or> n = 178 \<or> n = 179 \<or> n = 185)"

definition isdigit :: "string \<Rightarrow> bool" where
  "isdigit s = (s \<noteq> [] \<and> (\<forall>c \<in> set s. is_digit_char c))"

subsection \<open>The database\<close>

text \<open>
  Column \<^verbatim>\<open>last_seen\<close> is TEXT. The program writes it in two places, both binding the
  string \<^verbatim>\<open>datetime.now().isoformat()\<close>, and its queries compare it with the literal
  \<^verbatim>\<open>'Never'\<close>. So a value of the column is the text \<^verbatim>\<open>Never\<close> or an ISO-8601 time
  string; the latter is represented by the Julian day number SQLite's \<^verbatim>\<open>julianday\<close>
  reads from it. NULL is not a value of the column: nothing stores it.
\<close>

datatype last_seen_text = Never | Iso rat

record package =
  name :: string
  description :: string
  install_date :: string
  explicit_install :: bool
  last_seen :: last_seen_text

text \<open>
  A row of \<^verbatim>\<open>usage_events\<close>. The AUTOINCREMENT \<^verbatim>\<open>id\<close> is the position of the row in the
  list: rows are only ever appended.
\<close>

record usage_event =
  package_name :: string
  event_type :: string
  timestamp :: last_seen_text

text \<open>
  Table \<^verbatim>\<open>packages\<close> is a list of rows; \<^verbatim>\<open>name\<close> is its PRIMARY KEY, which
  \<^verbatim>\<open>INSERT OR REPLACE\<close> maintains by deleting the rows with the new row's key.
\<close>

record db =
  packages :: "package list"
  usage_events :: "usage_event list"

text \<open>The scalar subquery \<^verbatim>\<open>(SELECT last_seen FROM packages WHERE name = ?)\<close>; \<open>None\<close> is NULL.\<close>

definition select_last_seen :: "package list \<Rightarrow> string \<Rightarrow> last_seen_text option" where
  "select_last_seen rows n = map_option last_seen (find (\<lambda>r. name r = n) rows)"

definition coalesce :: "'a option \<Rightarrow> 'a \<Rightarrow> 'a" where
  "coalesce x d = (case x of None \<Rightarrow> d | Some v \<Rightarrow> v)"

definition insert_or_replace :: "package list \<Rightarrow> package \<Rightarrow> package list" where
  "insert_or_replace rows r = filter (\<lambda>q. name q \<noteq> name r) rows @ [r]"

subsection \<open>Reconcile: \<^verbatim>\<open>scan_installed_packages\<close> and \<^verbatim>\<open>_save_package\<close>\<close>

text \<open>
  The dictionary \<^verbatim>\<open>current_pkg\<close> has at most the keys \<^verbatim>\<open>name\<close>, \<^verbatim>\<open>description\<close> and
  \<^verbatim>\<open>install_date\<close>; a key that is absent is \<open>None\<close>.
\<close>

record pkg_info =
  info_name :: "string option"
  info_description :: "string option"
  info_install_date :: "string option"

definition empty_info :: pkg_info where
  "empty_info = \<lparr>info_name = None, info_description = None, info_install_date = None\<rparr>"

text \<open>The truth value of the dictionary: it has a key.\<close>

definition truthy :: "pkg_info \<Rightarrow> bool" where
  "truthy p = (info_name p \<noteq> None \<or> info_description p \<noteq> None \<or> info_install_date p \<noteq> None)"

text \<open>\<^verbatim>\<open>pkg_info['name']\<close> and \<^verbatim>\<open>pkg_info.get(key, '')\<close>.\<close>

definition subscript_name :: "pkg_info \<Rightarrow> py_error + string" where
  "subscript_name p = (case info_name p of None \<Rightarrow> Inl KeyError | Some n \<Rightarrow> Inr n)"

definition get_or_empty :: "string option \<Rightarrow> string" where
  "get_or_empty v = (case v of None \<Rightarrow> [] | Some s \<Rightarrow> s)"

text \<open>
  \<^verbatim>\<open>_save_package(conn, pkg_info, is_explicit)\<close> on the rows of \<^verbatim>\<open>packages\<close>; \<open>now\<close> is the
  reading of \<^verbatim>\<open>datetime.now()\<close> taken by this call.
\<close>

definition save_package :: "package list \<Rightarrow> pkg_info \<Rightarrow> bool \<Rightarrow> rat \<Rightarrow> py_error + package list" where
  "save_package rows p is_explicit now =
     (case subscript_name p of
        Inl e \<Rightarrow> Inl e
      | Inr n \<Rightarrow>
          Inr (insert_or_replace rows
                 \<lparr>name = n,
                  description = get_or_empty (info_description p),
                  install_date = get_or_empty (info_install_date p),
                  explicit_install = is_explicit,
                  last_seen = coalesce (select_last_seen rows n) (Iso now)\<rparr>))"

text \<open>
  The call \<^verbatim>\<open>self._save_package(conn, current_pkg, current_pkg['name'] in explicit_set)\<close>
  when \<^verbatim>\<open>current_pkg\<close> is true; \<open>k\<close> counts the readings of the clock taken so far.
\<close>

definition flush :: "string list \<Rightarrow> (nat \<Rightarrow> rat) \<Rightarrow> package list \<times> pkg_info \<times> nat
    \<Rightarrow> py_error + (package list \<times> nat)" where
  "flush explicit clock st =
     (case st of (rows, cur, k) \<Rightarrow>
        if truthy cur then
          (case subscript_name cur of
             Inl e \<Rightarrow> Inl e
           | Inr n \<Rightarrow>
               (case save_package rows cur (n \<in> set explicit) (clock k) of
                  Inl e \<Rightarrow> Inl e
                | Inr rows' \<Rightarrow> Inr (rows', Suc k)))
        else Inr (rows, k))"

text \<open>The body of the loop over the lines of \<^verbatim>\<open>pacman -Qi\<close>.\<close>

definition scan_line :: "string list \<Rightarrow> (nat \<Rightarrow> rat) \<Rightarrow> string \<Rightarrow> package list \<times> pkg_info \<times> nat
    \<Rightarrow> py_error + (package list \<times> pkg_info \<times> nat)" where
  "scan_line explicit clock line st =
     (case st of (rows, cur, k) \<Rightarrow>
        if startswith line ''Name'' then
          (case flush explicit clock st of
             Inl e \<Rightarrow> Inl e
           | Inr (rows', k') \<Rightarrow>
               (case after_colon line of
                  Inl e \<Rightarrow> Inl e
                | Inr v \<Rightarrow> Inr (rows', empty_info\<lparr>info_name := Some (strip v)\<rparr>, k')))
        else if startswith line ''Description'' then
          (case after_colon line of
             Inl e \<Rightarrow> Inl e
           | Inr v \<Rightarrow> Inr (rows, cur\<lparr>info_description := Some (strip v)\<rparr>, k))
        else if startswith line ''Install Date'' then
          (case after_colon line of
             Inl e \<Rightarrow> Inl e
           | Inr v \<Rightarrow> Inr (rows, cur\<lparr>info_install_date := Some (strip v)\<rparr>, k))
        else Inr st)"

fun scan_lines :: "string list \<Rightarrow> (nat \<Rightarrow> rat) \<Rightarrow> string list \<Rightarrow> package list \<times> pkg_info \<times> nat
    \<Rightarrow> py_error + (package list \<times> pkg_info \<times> nat)" where
  "scan_lines explicit clock [] st = Inr st"
| "scan_lines explicit clock (line # ls) st =
     (case scan_line explicit clock line st of
        Inl e \<Rightarrow> Inl e
      | Inr st' \<Rightarrow> scan_lines explicit clock ls st')"

text \<open>
  \<^verbatim>\<open>scan_installed_packages\<close>. \<open>qqe\<close> and \<open>qi\<close> are what
  \<^verbatim>\<open>subprocess.check_output([...]).decode()\<close> gives for \<^verbatim>\<open>pacman -Qqe\<close> and
  \<^verbatim>\<open>pacman -Qi\<close>: the text, or the exception raised. Only \<^verbatim>\<open>CalledProcessError\<close> is
  caught (the function then returns \<^verbatim>\<open>False\<close>); any other exception leaves the
  function. The result is the value returned or the exception raised, with the database
  as committed: the one \<^verbatim>\<open>conn.commit()\<close> follows the loop, so an exception in the
  loop leaves the tables as they were.
\<close>

definition scan_installed_packages :: "py_error + string \<Rightarrow> py_error + string \<Rightarrow> (nat \<Rightarrow> rat)
    \<Rightarrow> db \<Rightarrow> (py_error + bool) \<times> db" where
  "scan_installed_packages qqe qi clock d =
     (case qqe of
        Inl e \<Rightarrow> (if e = CalledProcessError then (Inr False, d) else (Inl e, d))
      | Inr explicit_out \<Rightarrow>
          (let explicit = split_on (CHR 0x0A) (strip explicit_out) in
           case qi of
             Inl e \<Rightarrow> (if e = CalledProcessError then (Inr False, d) else (Inl e, d))
           | Inr all_packages \<Rightarrow>
               (case scan_lines explicit clock (split_on (CHR 0x0A) all_packages)
                       (packages d, empty_info, 0) of
                  Inl e \<Rightarrow> (Inl e, d)
                | Inr st \<Rightarrow>
                    (case flush explicit clock st of
                       Inl e \<Rightarrow> (Inl e, d)
                     | Inr (rows', k') \<Rightarrow> (Inr True, d\<lparr>packages := rows'\<rparr>)))))"

subsection \<open>Correlate: \<^verbatim>\<open>scan_running_processes\<close>\<close>

text \<open>
  An entry of \<^verbatim>\<open>Path('/proc').iterdir()\<close>: its name, whether it is a directory, and what
  \<^verbatim>\<open>(pid_dir / 'exe').readlink()\<close> gives, the target or the exception raised.
\<close>

record proc_entry =
  entry_name :: string
  is_dir :: bool
  readlink :: "py_error + string"

text \<open>
  The first loop: the list \<^verbatim>\<open>processes\<close>. An \<^verbatim>\<open>OSError\<close> of \<^verbatim>\<open>readlink\<close> skips the
  entry, any other exception leaves the loop.
\<close>

fun collect :: "proc_entry list \<Rightarrow> string list \<Rightarrow> py_error + string list" where
  "collect [] processes = Inr processes"
| "collect (e # es) processes =
     (if is_dir e \<and> isdigit (entry_name e) then
        (case readlink e of
           Inl err \<Rightarrow> (if err = OSError then collect es processes else Inl err)
         | Inr exe_path \<Rightarrow> collect es (processes @ [exe_path]))
      else collect es processes)"

text \<open>\<^verbatim>\<open>UPDATE packages SET last_seen = ? WHERE name = ?\<close>\<close>

definition update_last_seen :: "package list \<Rightarrow> last_seen_text \<Rightarrow> string \<Rightarrow> package list" where
  "update_last_seen rows t n = map (\<lambda>r. if name r = n then r\<lparr>last_seen := t\<rparr> else r) rows"

text \<open>
  \<^verbatim>\<open>INSERT INTO usage_events (package_name, event_type, timestamp) VALUES (?, ?, ?)\<close>.
  The FOREIGN KEY clause of the table is not enforced: SQLite enforces foreign keys only
  after \<^verbatim>\<open>PRAGMA foreign_keys = ON\<close>, which the program never issues.
\<close>

definition insert_event :: "usage_event list \<Rightarrow> string \<Rightarrow> string \<Rightarrow> last_seen_text \<Rightarrow> usage_event list" where
  "insert_event evs n ty t = evs @ [\<lparr>package_name = n, event_type = ty, timestamp = t\<rparr>]"

text \<open>The exceptions of the inner \<^verbatim>\<open>except (subprocess.CalledProcessError, IndexError)\<close>.\<close>

definition caught :: "py_error \<Rightarrow> bool" where
  "caught e = (e = CalledProcessError \<or> e = IndexError)"

text \<open>
  The second loop. \<open>qo exe_path\<close> is what
  \<^verbatim>\<open>subprocess.check_output(['pacman', '-Qo', exe_path], ...).decode()\<close> gives.
\<close>

fun correlate :: "(string \<Rightarrow> py_error + string) \<Rightarrow> rat \<Rightarrow> string list \<Rightarrow> db \<Rightarrow> py_error + db" where
  "correlate qo now [] d = Inr d"
| "correlate qo now (exe_path # rest) d =
     (case qo exe_path of
        Inl e \<Rightarrow> (if caught e then correlate qo now rest d else Inl e)
      | Inr result \<Rightarrow>
          (case index (split_ws result) 4 of
             Inl e \<Rightarrow> (if caught e then correlate qo now rest d else Inl e)
           | Inr pkg \<Rightarrow>
               correlate qo now rest
                 (d\<lparr>packages := update_last_seen (packages d) (Iso now) pkg,
                    usage_events := insert_event (usage_events d) pkg ''process_scan'' (Iso now)\<rparr>)))"

text \<open>
  \<^verbatim>\<open>scan_running_processes\<close>. \<open>proc\<close> is the listing of \<^verbatim>\<open>/proc\<close> or the exception
  raised by it. The outer \<^verbatim>\<open>except Exception\<close> turns every exception into the result
  \<^verbatim>\<open>False\<close>; the connection is then dropped without a commit.
\<close>

definition scan_running_processes :: "py_error + proc_entry list \<Rightarrow> (string \<Rightarrow> py_error + string)
    \<Rightarrow> rat \<Rightarrow> db \<Rightarrow> bool \<times> db" where
  "scan_running_processes proc qo now d =
     (case proc of
        Inl e \<Rightarrow> (False, d)
      | Inr entries \<Rightarrow>
          (case collect entries [] of
             Inl e \<Rightarrow> (False, d)
           | Inr processes \<Rightarrow>
               (case correlate qo now processes d of
                  Inl e \<Rightarrow> (False, d)
                | Inr d' \<Rightarrow> (True, d'))))"

subsection \<open>The derived view: \<^verbatim>\<open>get_package_stats\<close>\<close>

text \<open>
  SQLite's \<^verbatim>\<open>julianday\<close> is NULL for a text that is not a time string, arithmetic and
  comparison with NULL are NULL, and \<^verbatim>\<open>CAST(x AS INTEGER)\<close> of a REAL truncates towards
  zero. NULL is \<open>None\<close>.
\<close>

fun julianday :: "last_seen_text \<Rightarrow> rat option" where
  "julianday Never = None"
| "julianday (Iso t) = Some t"

definition cast_integer :: "rat \<Rightarrow> int" where
  "cast_integer q = (if 0 \<le> q then \<lfloor>q\<rfloor> else \<lceil>q\<rceil>)"

text \<open>\<^verbatim>\<open>CAST((julianday('now') - julianday(last_seen)) AS INTEGER)\<close>\<close>

definition days_expr :: "rat \<Rightarrow> last_seen_text \<Rightarrow> int option" where
  "days_expr jnow t = map_option (\<lambda>j. cast_integer (jnow - j)) (julianday t)"

text \<open>The column \<^verbatim>\<open>days_unused\<close>: the CASE expression of the first query.\<close>

fun days_unused_expr :: "rat \<Rightarrow> last_seen_text \<Rightarrow> int" where
  "days_unused_expr jnow Never = 999"
| "days_unused_expr jnow (Iso t) = cast_integer (jnow - t)"

definition sql_gt :: "int option \<Rightarrow> int \<Rightarrow> bool option" where
  "sql_gt x k = map_option (\<lambda>v. v > k) x"

fun sql_and :: "bool option \<Rightarrow> bool option \<Rightarrow> bool option" where
  "sql_and (Some False) y = Some False"
| "sql_and x (Some False) = Some False"
| "sql_and (Some True) (Some True) = Some True"
| "sql_and x y = None"

text \<open>A WHERE clause keeps a row when its condition is true, not when it is false or NULL.\<close>

definition where_true :: "bool option \<Rightarrow> bool" where
  "where_true c = (c = Some True)"

text \<open>
  \<^verbatim>\<open>ORDER BY days_unused DESC, name\<close>: an insertion sort by the order \<open>row_le\<close>; text
  compares byte by byte (SQLite's BINARY collation).
\<close>

definition row_le :: "package \<times> int \<Rightarrow> package \<times> int \<Rightarrow> bool" where
  "row_le a b = (snd a > snd b \<or> (snd a = snd b \<and> name (fst a) \<le> name (fst b)))"

fun insert_row :: "package \<times> int \<Rightarrow> (package \<times> int) list \<Rightarrow> (package \<times> int) list" where
  "insert_row a [] = [a]"
| "insert_row a (b # bs) = (if row_le a b then a # b # bs else b # insert_row a bs)"

definition order_by :: "(package \<times> int) list \<Rightarrow> (package \<times> int) list" where
  "order_by rows = foldr insert_row rows []"

definition select_packages :: "rat \<Rightarrow> package list \<Rightarrow> (package \<times> int) list" where
  "select_packages jnow rows = order_by (map (\<lambda>r. (r, days_unused_expr jnow (last_seen r))) rows)"

record package_stat = package +
  days_unused :: int
  dust_percentage :: rat
  safety :: string

text \<open>
  The body of the loop over the cursor; \<open>d\<close> is \<^verbatim>\<open>row[5]\<close>. Python's float arithmetic
  is modelled by exact rational arithmetic.
\<close>

definition stat_of_row :: "package \<times> int \<Rightarrow> package_stat" where
  "stat_of_row row =
     (case row of (r, d) \<Rightarrow>
        let dust_level = min d 365;
            dust_pct = min ((of_int dust_level / 30) * 100) (100 :: rat)
        in \<lparr>name = name r,
            description = description r,
            install_date = install_date r,
            explicit_install = explicit_install r,
            last_seen = last_seen r,
            days_unused = d,
            dust_percentage = dust_pct,
            safety = (if explicit_install r \<and> d > 30 then ''safe'' else ''risky'')\<rparr>)"

record stats =
  total_packages :: nat
  unused_week :: nat
  dusty_explicit :: nat

record stats_result =
  result_packages :: "package_stat list"
  result_stats :: stats

definition count_unused_week :: "rat \<Rightarrow> package list \<Rightarrow> nat" where
  "count_unused_week jnow rows =
     length (filter (\<lambda>r. where_true (sql_gt (days_expr jnow (last_seen r)) 7)) rows)"

definition count_dusty_explicit :: "rat \<Rightarrow> package list \<Rightarrow> nat" where
  "count_dusty_explicit jnow rows =
     length (filter (\<lambda>r. where_true
        (sql_and (sql_and (Some (explicit_install r)) (sql_gt (days_expr jnow (last_seen r)) 30))
                 (Some (last_seen r \<noteq> Never)))) rows)"

text \<open>
  \<^verbatim>\<open>get_package_stats\<close>; \<open>jnow i\<close> is the Julian day of \<^verbatim>\<open>'now'\<close> in the \<open>i\<close>-th of the
  three statements that read the clock.
\<close>

definition get_package_stats :: "(nat \<Rightarrow> rat) \<Rightarrow> db \<Rightarrow> stats_result" where
  "get_package_stats jnow d =
     \<lparr>result_packages = map stat_of_row (select_packages (jnow 0) (packages d)),
      result_stats =
        \<lparr>total_packages = length (packages d),
         unused_week = count_unused_week (jnow 1) (packages d),
         dusty_explicit = count_dusty_explicit (jnow 2) (packages d)\<rparr>\<rparr>"

subsection \<open>The scan cycle\<close>

text \<open>
  The branch \<^verbatim>\<open>/api/scan\<close> of \<^verbatim>\<open>do_GET\<close>: both scans in sequence, then the
  \<^verbatim>\<open>success\<close> field of the response. An exception leaving
  \<^verbatim>\<open>scan_installed_packages\<close> leaves the handler.
\<close>

definition do_GET_api_scan :: "py_error + string \<Rightarrow> py_error + string \<Rightarrow> (nat \<Rightarrow> rat)
    \<Rightarrow> py_error + proc_entry list \<Rightarrow> (string \<Rightarrow> py_error + string) \<Rightarrow> rat
    \<Rightarrow> db \<Rightarrow> (py_error + bool) \<times> db" where
  "do_GET_api_scan qqe qi clock proc qo now d =
     (case scan_installed_packages qqe qi clock d of
        (Inl e, d1) \<Rightarrow> (Inl e, d1)
      | (Inr pkg_result, d1) \<Rightarrow>
          (case scan_running_processes proc qo now d1 of
             (proc_result, d2) \<Rightarrow> (Inr (pkg_result \<and> proc_result), d2)))"

text \<open>
  The branch \<^verbatim>\<open>--scan-only\<close> of \<^verbatim>\<open>main\<close>: the same two calls; the result is the exit
  status of the process, 1 after \<^verbatim>\<open>sys.exit(1)\<close>.
\<close>

definition main_scan_only :: "py_error + string \<Rightarrow> py_error + string \<Rightarrow> (nat \<Rightarrow> rat)
    \<Rightarrow> py_error + proc_entry list \<Rightarrow> (string \<Rightarrow> py_error + string) \<Rightarrow> rat
    \<Rightarrow> db \<Rightarrow> (py_error + nat) \<times> db" where
  "main_scan_only qqe qi clock proc qo now d =
     (case scan_installed_packages qqe qi clock d of
        (Inl e, d1) \<Rightarrow> (Inl e, d1)
      | (Inr pkg_result, d1) \<Rightarrow>
          (case scan_running_processes proc qo now d1 of
             (proc_result, d2) \<Rightarrow> (Inr (if pkg_result \<and> proc_result then 0 else 1), d2)))"

subsection \<open>The order of the listing, in the words of the specification\<close>

text \<open>
  Descending \<^verbatim>\<open>days_unused\<close>, ties broken by ascending name: the order the entries of
  the listing are expected to be in.
\<close>

definition stat_le :: "package_stat \<Rightarrow> package_stat \<Rightarrow> bool" where
  "stat_le a b = (days_unused a > days_unused b \<or> (days_unused a = days_unused b \<and> name a \<le> name b))"

subsection \<open>Notions used in the statements\<close>

text \<open>The row of \<^verbatim>\<open>packages\<close> stored under a name.\<close>

definition row_named :: "package list \<Rightarrow> string \<Rightarrow> package option" where
  "row_named rows n = find (\<lambda>r. name r = n) rows"

text \<open>
  The names of an inventory snapshot: what follows the colon, stripped, on each line of
  \<^verbatim>\<open>pacman -Qi\<close> that starts with \<^verbatim>\<open>Name\<close>.
\<close>

definition line_names :: "string list \<Rightarrow> string list" where
  "line_names ls = concat (map (\<lambda>l. if startswith l ''Name''
        then (case after_colon l of Inl e \<Rightarrow> [] | Inr v \<Rightarrow> [strip v]) else []) ls)"

definition snapshot_names :: "py_error + string \<Rightarrow> string list" where
  "snapshot_names qi = (case qi of Inl e \<Rightarrow> [] | Inr all_packages \<Rightarrow> line_names (split_on (CHR 0x0A) all_packages))"



text \<open>
  The package name the body of the second loop obtains for a path (\<open>None\<close> when the
  path is skipped), the names obtained for a list of paths, in order, and whether the
  lookup of a path raises an exception that the inner \<^verbatim>\<open>except\<close> does not catch.
\<close>

definition owner :: "(string \<Rightarrow> py_error + string) \<Rightarrow> string \<Rightarrow> string option" where
  "owner qo exe_path =
     (case qo exe_path of
        Inl e \<Rightarrow> None
      | Inr result \<Rightarrow> (case index (split_ws result) 4 of Inl e \<Rightarrow> None | Inr p \<Rightarrow> Some p))"

definition owners :: "(string \<Rightarrow> py_error + string) \<Rightarrow> string list \<Rightarrow> string list" where
  "owners qo ps = List.map_filter (owner qo) ps"

definition raises :: "(string \<Rightarrow> py_error + string) \<Rightarrow> string \<Rightarrow> bool" where
  "raises qo exe_path = (case qo exe_path of Inl e \<Rightarrow> \<not> caught e | Inr result \<Rightarrow> False)"

text \<open>The event row of a scan, and a pass that touches a list of names in turn.\<close>

definition scan_event :: "string \<Rightarrow> rat \<Rightarrow> usage_event" where
  "scan_event n now = \<lparr>package_name = n, event_type = ''process_scan'', timestamp = Iso now\<rparr>"

definition touch_all :: "string list \<Rightarrow> rat \<Rightarrow> db \<Rightarrow> db" where
  "touch_all ns now d =
     \<lparr>packages = map (\<lambda>r. if name r \<in> set ns then r\<lparr>last_seen := Iso now\<rparr> else r) (packages d),
      usage_events = usage_events d @ map (\<lambda>n. scan_event n now) ns\<rparr>"

subsection \<open>Sample inputs\<close>

text \<open>A package row with empty metadata, and a clock that always reads \<open>t\<close>.\<close>

definition pkg :: "string \<Rightarrow> bool \<Rightarrow> last_seen_text \<Rightarrow> package" where
  "pkg n e t = \<lparr>name = n, description = [], install_date = [], explicit_install = e, last_seen = t\<rparr>"

definition jnow_at :: "rat \<Rightarrow> nat \<Rightarrow> rat" where
  "jnow_at t i = t"

definition db_abc :: db where
  "db_abc = \<lparr>packages = [pkg ''C'' False (Iso 5), pkg ''B'' True (Iso 0), pkg ''A'' False (Iso 0)],
             usage_events = []\<rparr>"

definition db_never :: db where
  "db_never = \<lparr>packages = [pkg ''ghost'' True Never], usage_events = []\<rparr>"

text \<open>
  An output of \<^verbatim>\<open>pacman -Qi\<close> with two packages, the second without description and
  install date; an output of \<^verbatim>\<open>pacman -Qqe\<close>; a clock; a database; two dictionaries.
\<close>

definition qi_demo :: string where
  "qi_demo = ''Name            : bash'' @ [CHR 0x0A] @ ''Description     : The GNU shell'' @ [CHR 0x0A]
      @ ''Install Date    : Mon 01 Jan 2024'' @ [CHR 0x0A] @ [CHR 0x0A]
      @ ''Name            : zlib'' @ [CHR 0x0A] @ ''Version         : 1.3'' @ [CHR 0x0A]"

definition qqe_demo :: string where
  "qqe_demo = ''bash'' @ [CHR 0x0A]"

definition clock_demo :: "nat \<Rightarrow> rat" where
  "clock_demo k = 100 + of_nat k"

definition db_vim :: db where
  "db_vim = \<lparr>packages = [pkg ''vim'' True (Iso 3)], usage_events = []\<rparr>"

definition info_zlib :: pkg_info where
  "info_zlib = \<lparr>info_name = Some ''zlib'', info_description = None, info_install_date = None\<rparr>"

definition info_vim :: pkg_info where
  "info_vim = \<lparr>info_name = Some ''vim'', info_description = Some ''Vi Improved'',
      info_install_date = Some ''Tue 02 Jan 2024''\<rparr>"

text \<open>
  Answers of \<^verbatim>\<open>pacman -Qo\<close>; a \<^verbatim>\<open>/proc\<close> with two processes of package
  \<^verbatim>\<open>bash\<close>; one with a process of a package that is not stored; a database.
\<close>

definition qo_demo :: "string \<Rightarrow> py_error + string" where
  "qo_demo exe_path =
     (if exe_path = ''/usr/bin/bash'' then Inr ''/usr/bin/bash is owned by bash 5.2.037-1''
      else if exe_path = ''/usr/bin/sh'' then Inr ''/usr/bin/sh is owned by bash 5.2.037-1''
      else if exe_path = ''/opt/tool'' then Inr ''/opt/tool is owned by ghost 1.0-1''
      else Inl CalledProcessError)"

definition proc_demo :: "proc_entry list" where
  "proc_demo =
     [\<lparr>entry_name = ''12'', is_dir = True, readlink = Inr ''/usr/bin/bash''\<rparr>,
      \<lparr>entry_name = ''cpuinfo'', is_dir = False, readlink = Inl OSError\<rparr>,
      \<lparr>entry_name = ''13'', is_dir = True, readlink = Inr ''/usr/bin/sh''\<rparr>,
      \<lparr>entry_name = ''14'', is_dir = True, readlink = Inl OSError\<rparr>]"

definition proc_ghost :: "proc_entry list" where
  "proc_ghost = [\<lparr>entry_name = ''21'', is_dir = True, readlink = Inr ''/opt/tool''\<rparr>]"

definition db_bash :: db where
  "db_bash = \<lparr>packages = [pkg ''bash'' True (Iso 3)], usage_events = []\<rparr>"

section \<open>Properties\<close>

subsection \<open>The derived view\<close>

lemma in_result_packages:
  "e \<in> set (result_packages (get_package_stats jnow d)) \<Longrightarrow>
     \<exists>row \<in> set (select_packages (jnow 0) (packages d)). e = stat_of_row row"
  by (auto simp: get_package_stats_def)

lemma mset_insert_row: "mset (insert_row a bs) = add_mset a (mset bs)"
  by (induction bs) auto

lemma mset_order_by: "mset (order_by rows) = mset rows"
  by (induction rows) (auto simp: order_by_def mset_insert_row)

lemma set_order_by: "set (order_by rows) = set rows"
  using mset_order_by by (metis set_mset_mset)

lemma set_select_packages:
  "set (select_packages t rows) = (\<lambda>r. (r, days_unused_expr t (last_seen r))) ` set rows"
  by (simp add: select_packages_def set_order_by)

text \<open>
  C5: every entry of the listing has \<open>dust_percentage = min (min days_unused 365 / 30 * 100) 100\<close>,
  and its \<open>days_unused\<close> is the value of the column for its package, not the clamped one:
  15 days give 50, 30 days give 100, 400 days give 100 while \<open>days_unused\<close> stays 400.
\<close>

theorem dust_percentage_clamped:
  "(\<forall>e \<in> set (result_packages (get_package_stats jnow d)).
      dust_percentage e = min (of_int (min (days_unused e) 365) / 30 * 100) 100
      \<and> (\<exists>r \<in> set (packages d). name e = name r
            \<and> days_unused e = days_unused_expr (jnow 0) (last_seen r)))
   \<and> dust_percentage (stat_of_row (r, 15)) = 50
   \<and> dust_percentage (stat_of_row (r, 30)) = 100
   \<and> dust_percentage (stat_of_row (r, 400)) = 100
   \<and> days_unused (stat_of_row (r, 400)) = 400"
proof -
  have "dust_percentage e = min (of_int (min (days_unused e) 365) / 30 * 100) 100
      \<and> (\<exists>r \<in> set (packages d). name e = name r
            \<and> days_unused e = days_unused_expr (jnow 0) (last_seen r))"
    if "e \<in> set (result_packages (get_package_stats jnow d))" for e
  proof -
    from that obtain row where row: "row \<in> set (select_packages (jnow 0) (packages d))"
      and e: "e = stat_of_row row"
      using in_result_packages by blast
    from row obtain q where q: "q \<in> set (packages d)"
      and "row = (q, days_unused_expr (jnow 0) (last_seen q))"
      by (auto simp: set_select_packages)
    with e show ?thesis
      by (auto simp: stat_of_row_def Let_def)
  qed
  moreover have "dust_percentage (stat_of_row (r, 15)) = 50"
    "dust_percentage (stat_of_row (r, 30)) = 100"
    "dust_percentage (stat_of_row (r, 400)) = 100"
    "days_unused (stat_of_row (r, 400)) = 400"
    by (simp_all add: stat_of_row_def)
  ultimately show ?thesis by blast
qed

theorem dust_percentage_clamped_witness:
  "result_packages (get_package_stats (jnow_at 400) \<lparr>packages = [pkg ''vim'' True (Iso 0)], usage_events = []\<rparr>)
     = [\<lparr>name = ''vim'', description = [], install_date = [], explicit_install = True,
         last_seen = Iso 0, days_unused = 400, dust_percentage = 100, safety = ''safe''\<rparr>]
   \<and> dust_percentage \<lparr>name = ''vim'', description = [], install_date = [], explicit_install = True,
         last_seen = Iso 0, days_unused = 400, dust_percentage = 100, safety = ''safe''\<rparr>
      = min (of_int (min 400 365) / 30 * 100) 100"
proof -
  have ev: "result_packages (get_package_stats (jnow_at 400) \<lparr>packages = [pkg ''vim'' True (Iso 0)], usage_events = []\<rparr>)
     = [\<lparr>name = ''vim'', description = [], install_date = [], explicit_install = True,
         last_seen = Iso 0, days_unused = 400, dust_percentage = 100, safety = ''safe''\<rparr>]"
    by (simp add: get_package_stats_def select_packages_def order_by_def stat_of_row_def
        pkg_def jnow_at_def cast_integer_def)
  show ?thesis
    using dust_percentage_clamped [of "jnow_at 400" "\<lparr>packages = [pkg ''vim'' True (Iso 0)], usage_events = []\<rparr>"]
    unfolding ev by simp
qed

text \<open>
  C6: the \<open>safety\<close> of an entry is \<open>safe\<close> exactly when the package is explicitly
  installed and \<open>days_unused\<close> exceeds 30, and \<open>risky\<close> otherwise: a dependency is
  risky whatever its \<open>days_unused\<close>, an explicit package with 29 or 30 days is risky, one
  with 31 days is safe.
\<close>

theorem safety_classification:
  "(\<forall>e \<in> set (result_packages (get_package_stats jnow d)).
      (safety e = ''safe'') = (explicit_install e \<and> days_unused e > 30)
      \<and> (safety e = ''risky'') = (\<not> (explicit_install e \<and> days_unused e > 30)))
   \<and> safety (stat_of_row (r\<lparr>explicit_install := False\<rparr>, k)) = ''risky''
   \<and> safety (stat_of_row (r\<lparr>explicit_install := True\<rparr>, 29)) = ''risky''
   \<and> safety (stat_of_row (r\<lparr>explicit_install := True\<rparr>, 30)) = ''risky''
   \<and> safety (stat_of_row (r\<lparr>explicit_install := True\<rparr>, 31)) = ''safe''"
proof -
  have "(safety e = ''safe'') = (explicit_install e \<and> days_unused e > 30)
      \<and> (safety e = ''risky'') = (\<not> (explicit_install e \<and> days_unused e > 30))"
    if "e \<in> set (result_packages (get_package_stats jnow d))" for e
  proof -
    from that obtain row where "e = stat_of_row row"
      using in_result_packages by blast
    then show ?thesis
      by (cases row) (simp add: stat_of_row_def)
  qed
  moreover have "safety (stat_of_row (r\<lparr>explicit_install := False\<rparr>, k)) = ''risky''"
    "safety (stat_of_row (r\<lparr>explicit_install := True\<rparr>, 29)) = ''risky''"
    "safety (stat_of_row (r\<lparr>explicit_install := True\<rparr>, 30)) = ''risky''"
    "safety (stat_of_row (r\<lparr>explicit_install := True\<rparr>, 31)) = ''safe''"
    by (simp_all add: stat_of_row_def)
  ultimately show ?thesis by blast
qed

theorem safety_classification_witness:
  "result_packages (get_package_stats (jnow_at 31) \<lparr>packages = [pkg ''vim'' True (Iso 0)], usage_events = []\<rparr>)
     = [\<lparr>name = ''vim'', description = [], install_date = [], explicit_install = True,
         last_seen = Iso 0, days_unused = 31, dust_percentage = 100, safety = ''safe''\<rparr>]
   \<and> (safety \<lparr>name = ''vim'', description = [], install_date = [], explicit_install = True,
         last_seen = Iso 0, days_unused = 31, dust_percentage = 100, safety = ''safe''\<rparr> = ''safe'')
      = (True \<and> (31 :: int) > 30)"
proof -
  have ev: "result_packages (get_package_stats (jnow_at 31) \<lparr>packages = [pkg ''vim'' True (Iso 0)], usage_events = []\<rparr>)
     = [\<lparr>name = ''vim'', description = [], install_date = [], explicit_install = True,
         last_seen = Iso 0, days_unused = 31, dust_percentage = 100, safety = ''safe''\<rparr>]"
    by (simp add: get_package_stats_def select_packages_def order_by_def stat_of_row_def
        pkg_def jnow_at_def cast_integer_def)
  show ?thesis
    using safety_classification [of "jnow_at 31" "\<lparr>packages = [pkg ''vim'' True (Iso 0)], usage_events = []\<rparr>"]
    unfolding ev by simp
qed

lemma row_le_trans: "row_le a b \<Longrightarrow> row_le b c \<Longrightarrow> row_le a c"
  by (auto simp: row_le_def)

lemma row_le_total: "\<not> row_le a b \<Longrightarrow> row_le b a"
  by (auto simp: row_le_def)

lemma set_insert_row: "set (insert_row a bs) = insert a (set bs)"
  by (induction bs) auto

lemma sorted_insert_row: "sorted_wrt row_le bs \<Longrightarrow> sorted_wrt row_le (insert_row a bs)"
proof (induction bs)
  case Nil
  then show ?case by simp
next
  case (Cons b bs)
  show ?case
  proof (cases "row_le a b")
    case True
    with Cons.prems show ?thesis
      by (auto intro: row_le_trans)
  next
    case False
    then have "row_le b a" by (rule row_le_total)
    with False Cons show ?thesis
      by (auto simp: set_insert_row)
  qed
qed

lemma sorted_order_by: "sorted_wrt row_le (order_by rows)"
  by (induction rows) (auto simp: order_by_def sorted_insert_row)

lemma stat_le_stat_of_row: "stat_le (stat_of_row a) (stat_of_row b) = row_le a b"
  by (cases a; cases b) (simp add: stat_le_def row_le_def stat_of_row_def)

lemma name_stat_of_row: "name (stat_of_row row) = name (fst row)"
  by (cases row) (simp add: stat_of_row_def)

text \<open>
  C7: the listing holds every package once, sorted by descending \<open>days_unused\<close> with
  ties broken by ascending name; packages A and B with 10 days and C with 5 days come out
  as A, B, C.
\<close>

theorem list_packages_ordering:
  "sorted_wrt stat_le (result_packages (get_package_stats jnow d))
   \<and> mset (map name (result_packages (get_package_stats jnow d))) = mset (map name (packages d))
   \<and> map name (result_packages (get_package_stats (jnow_at 10) db_abc)) = [''A'', ''B'', ''C'']
   \<and> map days_unused (result_packages (get_package_stats (jnow_at 10) db_abc)) = [10, 10, 5]"
proof -
  have "sorted_wrt stat_le (result_packages (get_package_stats jnow d))"
    by (simp add: get_package_stats_def sorted_wrt_map stat_le_stat_of_row select_packages_def
        sorted_order_by)
  moreover have "mset (map name (result_packages (get_package_stats jnow d))) = mset (map name (packages d))"
  proof -
    have "mset (map name (result_packages (get_package_stats jnow d)))
        = image_mset (\<lambda>row. name (fst row)) (mset (select_packages (jnow 0) (packages d)))"
      by (simp add: get_package_stats_def name_stat_of_row comp_def)
    also have "\<dots> = image_mset (\<lambda>row. name (fst row))
        (mset (map (\<lambda>r. (r, days_unused_expr (jnow 0) (last_seen r))) (packages d)))"
      by (simp only: select_packages_def mset_order_by)
    also have "\<dots> = mset (map name (packages d))"
      by (simp add: multiset.map_comp comp_def)
    finally show ?thesis .
  qed
  moreover have "map name (result_packages (get_package_stats (jnow_at 10) db_abc)) = [''A'', ''B'', ''C'']"
    "map days_unused (result_packages (get_package_stats (jnow_at 10) db_abc)) = [10, 10, 5]"
    by (simp_all add: get_package_stats_def select_packages_def order_by_def stat_of_row_def
        db_abc_def pkg_def jnow_at_def cast_integer_def row_le_def)
  ultimately show ?thesis by blast
qed

lemma sql_and_Some: "sql_and (Some a) (Some b) = Some (a \<and> b)"
  by (cases a; cases b) simp_all

lemma dusty_explicit_cond:
  "where_true (sql_and (sql_and (Some (explicit_install r)) (sql_gt (days_expr t (last_seen r)) 30))
        (Some (last_seen r \<noteq> Never)))
     = (case last_seen r of Never \<Rightarrow> False
        | Iso u \<Rightarrow> explicit_install r \<and> cast_integer (t - u) > 30)"
  by (cases "last_seen r"; cases "explicit_install r")
     (simp_all add: where_true_def sql_gt_def days_expr_def sql_and_Some)

lemma unused_week_cond:
  "where_true (sql_gt (days_expr t ls) 7)
     = (case ls of Never \<Rightarrow> False | Iso u \<Rightarrow> cast_integer (t - u) > 7)"
  by (cases ls) (simp_all add: where_true_def sql_gt_def days_expr_def)

text \<open>
  C3: a package whose \<open>last_seen\<close> is \<open>Never\<close> has \<open>days_unused = 999\<close> in the listing,
  but the query behind \<open>unused_week\<close> recomputes the day count without the CASE for
  \<open>Never\<close>: \<open>julianday('Never')\<close> is NULL, the comparison with 7 is NULL, and the row is
  not counted. With one such explicit package in the table, \<open>unused_week\<close> and
  \<open>dusty_explicit\<close> are both 0. In general both counts are over the rows with a time
  string in \<open>last_seen\<close> only.
\<close>

theorem never_dropped_from_unused_week:
  "result_stats (get_package_stats jnow db_never)
     = \<lparr>total_packages = 1, unused_week = 0, dusty_explicit = 0\<rparr>
   \<and> map days_unused (result_packages (get_package_stats jnow db_never)) = [999]
   \<and> unused_week (result_stats (get_package_stats jnow d))
       = length (filter (\<lambda>r. case last_seen r of Never \<Rightarrow> False
                              | Iso t \<Rightarrow> cast_integer (jnow 1 - t) > 7) (packages d))
   \<and> dusty_explicit (result_stats (get_package_stats jnow d))
       = length (filter (\<lambda>r. case last_seen r of Never \<Rightarrow> False
                              | Iso t \<Rightarrow> explicit_install r \<and> cast_integer (jnow 2 - t) > 30)
                  (packages d))"
proof -
  have "result_stats (get_package_stats jnow db_never)
     = \<lparr>total_packages = 1, unused_week = 0, dusty_explicit = 0\<rparr>"
    by (simp add: get_package_stats_def db_never_def pkg_def count_unused_week_def
        count_dusty_explicit_def where_true_def sql_gt_def days_expr_def)
  moreover have "map days_unused (result_packages (get_package_stats jnow db_never)) = [999]"
    by (simp add: get_package_stats_def db_never_def pkg_def select_packages_def order_by_def
        stat_of_row_def)
  moreover have "unused_week (result_stats (get_package_stats jnow d))
       = length (filter (\<lambda>r. case last_seen r of Never \<Rightarrow> False
                              | Iso t \<Rightarrow> cast_integer (jnow 1 - t) > 7) (packages d))"
    by (simp only: get_package_stats_def count_unused_week_def unused_week_cond
        stats.select_convs stats_result.select_convs)
  moreover have "dusty_explicit (result_stats (get_package_stats jnow d))
       = length (filter (\<lambda>r. case last_seen r of Never \<Rightarrow> False
                              | Iso t \<Rightarrow> explicit_install r \<and> cast_integer (jnow 2 - t) > 30)
                  (packages d))"
    by (simp only: get_package_stats_def count_dusty_explicit_def dusty_explicit_cond
        stats.select_convs stats_result.select_convs)
  ultimately show ?thesis by blast
qed

subsection \<open>Reconcile\<close>

lemma find_app: "find P (xs @ ys) = (case find P xs of None \<Rightarrow> find P ys | Some x \<Rightarrow> Some x)"
  by (induction xs) auto

lemma row_named_insert_or_replace: "row_named (insert_or_replace rows r) (name r) = Some r"
proof -
  have "find (\<lambda>q. name q = name r) (filter (\<lambda>q. name q \<noteq> name r) rows) = None"
    by (simp add: find_None_iff)
  then show ?thesis
    by (simp add: row_named_def insert_or_replace_def find_app)
qed

lemma select_last_seen_row_named: "select_last_seen rows n = map_option last_seen (row_named rows n)"
  by (simp add: select_last_seen_def row_named_def)

lemma names_insert_or_replace:
  "name ` set (insert_or_replace rows r) = insert (name r) (name ` set rows)"
  by (auto simp: insert_or_replace_def)

lemma kept_insert_or_replace:
  "q \<in> set rows \<Longrightarrow> name q \<noteq> name r \<Longrightarrow> q \<in> set (insert_or_replace rows r)"
  by (simp add: insert_or_replace_def)

lemma save_package_Inr:
  "save_package rows p e now = Inr rows' \<Longrightarrow>
     \<exists>n r. info_name p = Some n \<and> name r = n \<and> rows' = insert_or_replace rows r"
  by (cases "info_name p") (auto simp: save_package_def subscript_name_def intro!: exI)


lemma flush_effect:
  assumes "flush ex clock (rows, cur, k) = Inr (rows', k')"
  shows "name ` set rows' = name ` set rows \<union> set_option (info_name cur)
      \<and> (\<forall>r \<in> set rows. name r \<notin> set_option (info_name cur) \<longrightarrow> r \<in> set rows')"
proof (cases "truthy cur")
  case False
  with assms show ?thesis
    by (auto simp: flush_def truthy_def)
next
  case True
  with assms obtain n where n: "info_name cur = Some n"
    and sv: "save_package rows cur (n \<in> set ex) (clock k) = Inr rows'"
    by (auto simp: flush_def subscript_name_def split: option.splits sum.splits)
  from save_package_Inr [OF sv] n obtain r where "name r = n" "rows' = insert_or_replace rows r"
    by auto
  with n show ?thesis
    by (auto simp: names_insert_or_replace kept_insert_or_replace)
qed

lemma line_names_Cons:
  "line_names (l # ls) = (if startswith l ''Name''
        then (case after_colon l of Inl e \<Rightarrow> [] | Inr v \<Rightarrow> [strip v]) else []) @ line_names ls"
  by (simp add: line_names_def)

lemma line_names_append: "line_names (xs @ ys) = line_names xs @ line_names ys"
  by (simp add: line_names_def)

lemma line_names_Nil: "line_names [] = []"
  by (simp add: line_names_def)

lemma scan_line_effect:
  assumes "scan_line ex clock l (rows, cur, k) = Inr (rows', cur', k')"
  shows "name ` set rows' \<union> set_option (info_name cur')
        = name ` set rows \<union> set_option (info_name cur) \<union> set (line_names [l])
      \<and> set_option (info_name cur') \<subseteq> set_option (info_name cur) \<union> set (line_names [l])
      \<and> (\<forall>r \<in> set rows. name r \<notin> set_option (info_name cur) \<longrightarrow> r \<in> set rows')"
proof (cases "startswith l ''Name''")
  case True
  with assms obtain v where fl: "flush ex clock (rows, cur, k) = Inr (rows', k')"
    and v: "after_colon l = Inr v" and cur': "cur' = empty_info\<lparr>info_name := Some (strip v)\<rparr>"
    by (auto simp: scan_line_def split: sum.splits prod.splits)
  from flush_effect [OF fl] True v cur' show ?thesis
    by (auto simp: line_names_Cons line_names_Nil)
next
  case False
  with assms have "rows' = rows" "info_name cur' = info_name cur"
    by (auto simp: scan_line_def split: sum.splits if_splits)
  with False show ?thesis
    by (simp add: line_names_Cons line_names_Nil)
qed

lemma scan_lines_effect:
  "scan_lines ex clock ls (rows, cur, k) = Inr (rows', cur', k') \<Longrightarrow>
     name ` set rows' \<union> set_option (info_name cur')
        = name ` set rows \<union> set_option (info_name cur) \<union> set (line_names ls)
      \<and> set_option (info_name cur') \<subseteq> set_option (info_name cur) \<union> set (line_names ls)
      \<and> (\<forall>r \<in> set rows. name r \<notin> set_option (info_name cur) \<union> set (line_names ls)
            \<longrightarrow> r \<in> set rows')"
proof (induction ls arbitrary: rows cur k)
  case Nil
  then show ?case by (simp add: line_names_Nil)
next
  case (Cons l ls)
  from Cons.prems have "\<exists>st1. scan_line ex clock l (rows, cur, k) = Inr st1
      \<and> scan_lines ex clock ls st1 = Inr (rows', cur', k')"
    by (cases "scan_line ex clock l (rows, cur, k)") simp_all
  then obtain st1
    where step1: "scan_line ex clock l (rows, cur, k) = Inr st1"
      and rest1: "scan_lines ex clock ls st1 = Inr (rows', cur', k')"
    by blast
  obtain rows1 cur1 k1 where st1: "st1 = (rows1, cur1, k1)"
    by (cases st1) auto
  define N where "N = name ` set rows"
  define N1 where "N1 = name ` set rows1"
  define N' where "N' = name ` set rows'"
  define C where "C = set_option (info_name cur)"
  define C1 where "C1 = set_option (info_name cur1)"
  define C' where "C' = set_option (info_name cur')"
  define L where "L = set (line_names [l])"
  define Ls where "Ls = set (line_names ls)"
  note a = scan_line_effect [OF step1 [unfolded st1]]
    and b = Cons.IH [OF rest1 [unfolded st1]]
  have a1: "N1 \<union> C1 = N \<union> C \<union> L" and a2: "C1 \<subseteq> C \<union> L"
    and a3: "\<And>r. r \<in> set rows \<Longrightarrow> name r \<notin> C \<Longrightarrow> r \<in> set rows1"
    using a by (simp_all add: N_def N1_def C_def C1_def L_def)
  have b1: "N' \<union> C' = N1 \<union> C1 \<union> Ls" and b2: "C' \<subseteq> C1 \<union> Ls"
    and b3: "\<And>r. r \<in> set rows1 \<Longrightarrow> name r \<notin> C1 \<union> Ls \<Longrightarrow> r \<in> set rows'"
    using b by (simp_all add: N'_def N1_def C'_def C1_def Ls_def)
  have lns: "set (line_names (l # ls)) = L \<union> Ls"
    using line_names_append [of "[l]" ls] by (simp add: L_def Ls_def)
  have g1: "N' \<union> C' = N \<union> C \<union> (L \<union> Ls)"
    using a1 b1 by (simp add: Un_assoc)
  have g2: "C' \<subseteq> C \<union> (L \<union> Ls)"
    using a2 b2 by blast
  have g3: "r \<in> set rows'" if r: "r \<in> set rows" and nr: "name r \<notin> C \<union> (L \<union> Ls)" for r
  proof -
    from r nr have r1: "r \<in> set rows1" by (intro a3) auto
    from nr a2 have "name r \<notin> C1 \<union> Ls" by blast
    with r1 show ?thesis by (rule b3)
  qed
  from g1 g2 g3 show ?case
    unfolding lns N_def N'_def C_def C'_def by blast
qed








lemma save_package_stores:
  assumes "info_name p = Some n"
  shows "\<exists>rows' r'. save_package rows p e now = Inr rows' \<and> row_named rows' n = Some r'
      \<and> r' = \<lparr>name = n, description = get_or_empty (info_description p),
               install_date = get_or_empty (info_install_date p), explicit_install = e,
               last_seen = (case row_named rows n of None \<Rightarrow> Iso now | Some r \<Rightarrow> last_seen r)\<rparr>"
proof -
  define r' where "r' = \<lparr>name = n, description = get_or_empty (info_description p),
      install_date = get_or_empty (info_install_date p), explicit_install = e,
      last_seen = coalesce (select_last_seen rows n) (Iso now)\<rparr>"
  have 1: "save_package rows p e now = Inr (insert_or_replace rows r')"
    using assms by (simp add: save_package_def subscript_name_def r'_def)
  have "name r' = n" by (simp add: r'_def)
  then have 2: "row_named (insert_or_replace rows r') n = Some r'"
    using row_named_insert_or_replace [of rows r'] by simp
  have 3: "coalesce (select_last_seen rows n) (Iso now)
      = (case row_named rows n of None \<Rightarrow> Iso now | Some r \<Rightarrow> last_seen r)"
    by (cases "row_named rows n") (simp_all add: select_last_seen_row_named coalesce_def)
  show ?thesis
    by (rule exI [of _ "insert_or_replace rows r'"], rule exI [of _ r'])
       (use 1 2 3 in \<open>simp add: r'_def\<close>)
qed

text \<open>
  C1: an upsert by \<^verbatim>\<open>_save_package\<close> succeeds and leaves one row under the name, with
  the description, install date and explicit flag of the call. If a row was stored under
  the name, the new row has its \<open>last_seen\<close>; if none was, \<open>last_seen\<close> is the current
  time, which is not \<open>Never\<close>.
\<close>

theorem upsert_keeps_last_seen:
  assumes "info_name p = Some n"
  shows "\<exists>rows' r'. save_package rows p e now = Inr rows' \<and> row_named rows' n = Some r'
      \<and> description r' = get_or_empty (info_description p)
      \<and> install_date r' = get_or_empty (info_install_date p)
      \<and> explicit_install r' = e
      \<and> (\<forall>r. row_named rows n = Some r \<longrightarrow> last_seen r' = last_seen r)
      \<and> (row_named rows n = None \<longrightarrow> last_seen r' = Iso now \<and> last_seen r' \<noteq> Never)"
proof -
  from save_package_stores [OF assms, of rows e now] obtain rows' r'
    where "save_package rows p e now = Inr rows'" "row_named rows' n = Some r'"
      and "r' = \<lparr>name = n, description = get_or_empty (info_description p),
               install_date = get_or_empty (info_install_date p), explicit_install = e,
               last_seen = (case row_named rows n of None \<Rightarrow> Iso now | Some r \<Rightarrow> last_seen r)\<rparr>"
    by blast
  then show ?thesis
    by (intro exI [of _ rows'] exI [of _ r']) simp
qed

theorem upsert_keeps_last_seen_witness:
  "(\<exists>rows' r'. save_package (packages db_vim) info_vim False 9 = Inr rows'
      \<and> row_named rows' ''vim'' = Some r'
      \<and> description r' = ''Vi Improved'' \<and> install_date r' = ''Tue 02 Jan 2024''
      \<and> explicit_install r' = False \<and> last_seen r' = Iso 3)
   \<and> (\<exists>rows' r'. save_package (packages db_vim) info_zlib True 9 = Inr rows'
      \<and> row_named rows' ''zlib'' = Some r' \<and> last_seen r' = Iso 9)"
proof -
  have h1: "info_name info_vim = Some ''vim''" by (simp add: info_vim_def)
  have h2: "info_name info_zlib = Some ''zlib''" by (simp add: info_zlib_def)
  have old: "row_named (packages db_vim) ''vim'' = Some (pkg ''vim'' True (Iso 3))"
    "row_named (packages db_vim) ''zlib'' = None"
    by (simp_all add: row_named_def db_vim_def pkg_def)
  from upsert_keeps_last_seen [OF h1, of "packages db_vim" False 9] old(1)
  have "\<exists>rows' r'. save_package (packages db_vim) info_vim False 9 = Inr rows'
      \<and> row_named rows' ''vim'' = Some r'
      \<and> description r' = ''Vi Improved'' \<and> install_date r' = ''Tue 02 Jan 2024''
      \<and> explicit_install r' = False \<and> last_seen r' = Iso 3"
    by (simp add: info_vim_def get_or_empty_def pkg_def)
  moreover from upsert_keeps_last_seen [OF h2, of "packages db_vim" True 9] old(2)
  have "\<exists>rows' r'. save_package (packages db_vim) info_zlib True 9 = Inr rows'
      \<and> row_named rows' ''zlib'' = Some r' \<and> last_seen r' = Iso 9"
    by auto
  ultimately show ?thesis by blast
qed

lemma scan_installed_cases:
  "scan_installed_packages qqe qi clock d = (Inr False, d)
   \<or> (\<exists>e. scan_installed_packages qqe qi clock d = (Inl e, d))
   \<or> (\<exists>ex all_packages rows' cur' k' rows'' k''. qqe = Inr ex \<and> qi = Inr all_packages
        \<and> scan_lines (split_on (CHR 0x0A) (strip ex)) clock (split_on (CHR 0x0A) all_packages)
              (packages d, empty_info, 0) = Inr (rows', cur', k')
        \<and> flush (split_on (CHR 0x0A) (strip ex)) clock (rows', cur', k') = Inr (rows'', k'')
        \<and> scan_installed_packages qqe qi clock d = (Inr True, d\<lparr>packages := rows''\<rparr>))"
proof (cases qqe)
  case (Inl e)
  then show ?thesis by (simp add: scan_installed_packages_def)
next
  case qqe: (Inr ex)
  show ?thesis
  proof (cases qi)
    case (Inl e)
    with qqe show ?thesis by (simp add: scan_installed_packages_def)
  next
    case qi: (Inr all_packages)
    define explicit where "explicit = split_on (CHR 0x0A) (strip ex)"
    show ?thesis
    proof (cases "scan_lines explicit clock (split_on (CHR 0x0A) all_packages) (packages d, empty_info, 0)")
      case (Inl e)
      with qqe qi show ?thesis by (simp add: scan_installed_packages_def explicit_def)
    next
      case (Inr st)
      obtain rows' cur' k' where st: "st = (rows', cur', k')" by (cases st) auto
      show ?thesis
      proof (cases "flush explicit clock st")
        case (Inl e)
        with Inr qqe qi show ?thesis by (simp add: scan_installed_packages_def explicit_def)
      next
        case fl: (Inr res)
        obtain rows'' k'' where res: "res = (rows'', k'')" by (cases res) auto
        from Inr fl qqe qi st res show ?thesis
          by (simp add: scan_installed_packages_def explicit_def)
      qed
    qed
  qed
qed

text \<open>
  C9: whatever \<^verbatim>\<open>scan_installed_packages\<close> does (return \<^verbatim>\<open>True\<close>, return
  \<^verbatim>\<open>False\<close> or raise), every package stored before is stored after, a row whose name
  is not in the snapshot is there unchanged, and the usage events are untouched.
\<close>

theorem reconcile_never_removes:
  "usage_events (snd (scan_installed_packages qqe qi clock d)) = usage_events d
   \<and> (\<forall>r \<in> set (packages d).
         name r \<in> name ` set (packages (snd (scan_installed_packages qqe qi clock d)))
         \<and> (name r \<notin> set (snapshot_names qi)
              \<longrightarrow> r \<in> set (packages (snd (scan_installed_packages qqe qi clock d)))))"
proof -
  consider (same) "snd (scan_installed_packages qqe qi clock d) = d"
    | (ran) ex all_packages rows' cur' k' rows'' k'' where "qi = Inr all_packages"
        "scan_lines (split_on (CHR 0x0A) (strip ex)) clock (split_on (CHR 0x0A) all_packages)
              (packages d, empty_info, 0) = Inr (rows', cur', k')"
        "flush (split_on (CHR 0x0A) (strip ex)) clock (rows', cur', k') = Inr (rows'', k'')"
        "scan_installed_packages qqe qi clock d = (Inr True, d\<lparr>packages := rows''\<rparr>)"
    using scan_installed_cases [of qqe qi clock d] by fastforce
  then show ?thesis
  proof cases
    case same
    then show ?thesis by auto
  next
    case ran
    define L where "L = set (line_names (split_on (CHR 0x0A) all_packages))"
    have sn: "set (snapshot_names qi) = L"
      using ran(1) by (simp add: snapshot_names_def L_def)
    note a = scan_lines_effect [OF ran(2)] and b = flush_effect [OF ran(3)]
    have a1: "name ` set rows' \<union> set_option (info_name cur') = name ` set (packages d) \<union> L"
      and a2: "set_option (info_name cur') \<subseteq> L"
      and a3: "\<And>r. r \<in> set (packages d) \<Longrightarrow> name r \<notin> L \<Longrightarrow> r \<in> set rows'"
      using a by (simp_all add: L_def empty_info_def)
    have b1: "name ` set rows'' = name ` set rows' \<union> set_option (info_name cur')"
      and b2: "\<And>r. r \<in> set rows' \<Longrightarrow> name r \<notin> set_option (info_name cur') \<Longrightarrow> r \<in> set rows''"
      using b by simp_all
    have g1: "name r \<in> name ` set rows''" if "r \<in> set (packages d)" for r
      using that a1 b1 by blast
    have g2: "r \<in> set rows''" if r: "r \<in> set (packages d)" and nr: "name r \<notin> L" for r
    proof -
      from r nr have "r \<in> set rows'" by (rule a3)
      moreover from nr a2 have "name r \<notin> set_option (info_name cur')" by blast
      ultimately show ?thesis by (rule b2)
    qed
    from g1 g2 show ?thesis
      unfolding sn ran(4) by simp
  qed
qed

theorem reconcile_never_removes_witness:
  "scan_installed_packages (Inr qqe_demo) (Inr qi_demo) clock_demo db_vim
     = (Inr True,
        \<lparr>packages = [pkg ''vim'' True (Iso 3),
            \<lparr>name = ''bash'', description = ''The GNU shell'', install_date = ''Mon 01 Jan 2024'',
             explicit_install = True, last_seen = Iso 100\<rparr>,
            \<lparr>name = ''zlib'', description = [], install_date = [],
             explicit_install = False, last_seen = Iso 101\<rparr>],
         usage_events = []\<rparr>)
   \<and> pkg ''vim'' True (Iso 3) \<in> set (packages db_vim)
   \<and> name (pkg ''vim'' True (Iso 3)) \<notin> set (snapshot_names (Inr qi_demo))
   \<and> pkg ''vim'' True (Iso 3)
        \<in> set (packages (snd (scan_installed_packages (Inr qqe_demo) (Inr qi_demo) clock_demo db_vim)))"
proof -
  have ev: "scan_installed_packages (Inr qqe_demo) (Inr qi_demo) clock_demo db_vim
     = (Inr True,
        \<lparr>packages = [pkg ''vim'' True (Iso 3),
            \<lparr>name = ''bash'', description = ''The GNU shell'', install_date = ''Mon 01 Jan 2024'',
             explicit_install = True, last_seen = Iso 100\<rparr>,
            \<lparr>name = ''zlib'', description = [], install_date = [],
             explicit_install = False, last_seen = Iso 101\<rparr>],
         usage_events = []\<rparr>)"
    by code_simp
  have inn: "pkg ''vim'' True (Iso 3) \<in> set (packages db_vim)"
    by (simp add: db_vim_def)
  have nn: "name (pkg ''vim'' True (Iso 3)) \<notin> set (snapshot_names (Inr qi_demo))"
    by code_simp
  from reconcile_never_removes [of "Inr qqe_demo" "Inr qi_demo" clock_demo db_vim] inn nn
  have "pkg ''vim'' True (Iso 3)
        \<in> set (packages (snd (scan_installed_packages (Inr qqe_demo) (Inr qi_demo) clock_demo db_vim)))"
    by blast
  with ev inn nn show ?thesis by blast
qed




subsection \<open>Correlate\<close>

lemma index_caught: "index xs i = Inl e \<Longrightarrow> caught e"
  by (auto simp: index_def caught_def split: if_splits)

lemma owners_Nil: "owners qo [] = []"
  by (simp add: owners_def map_filter_simps)

lemma owners_Cons:
  "owners qo (p # ps) = (case owner qo p of None \<Rightarrow> owners qo ps | Some n \<Rightarrow> n # owners qo ps)"
  by (cases "owner qo p") (simp_all add: owners_def map_filter_simps)

lemma touch_all_Nil: "touch_all [] now d = d"
  by (simp add: touch_all_def)

lemma touch_all_Cons:
  "touch_all (n # ns) now d =
     touch_all ns now (d\<lparr>packages := update_last_seen (packages d) (Iso now) n,
        usage_events := insert_event (usage_events d) n ''process_scan'' (Iso now)\<rparr>)"
  by (simp add: touch_all_def update_last_seen_def insert_event_def scan_event_def)

lemma correlate_skip:
  assumes "owner qo p = None" and "\<not> raises qo p"
  shows "correlate qo now (p # ps) d = correlate qo now ps d"
proof (cases "qo p")
  case (Inl e)
  with assms(2) show ?thesis by (simp add: raises_def)
next
  case (Inr result)
  with assms(1) obtain e where "index (split_ws result) 4 = Inl e"
    by (auto simp: owner_def split: sum.splits)
  with Inr index_caught [of "split_ws result" 4 e] show ?thesis by simp
qed

lemma correlate_hit:
  assumes "owner qo p = Some n"
  shows "correlate qo now (p # ps) d =
     correlate qo now ps (d\<lparr>packages := update_last_seen (packages d) (Iso now) n,
        usage_events := insert_event (usage_events d) n ''process_scan'' (Iso now)\<rparr>)"
  using assms by (auto simp: owner_def split: sum.splits)

lemma correlate_ok:
  "\<forall>p \<in> set ps. \<not> raises qo p \<Longrightarrow> correlate qo now ps d = Inr (touch_all (owners qo ps) now d)"
proof (induction ps arbitrary: d)
  case Nil
  then show ?case by (simp add: owners_Nil touch_all_Nil)
next
  case (Cons p ps)
  show ?case
  proof (cases "owner qo p")
    case None
    with Cons show ?thesis
      by (simp add: correlate_skip owners_Cons del: correlate.simps)
  next
    case (Some n)
    with Cons show ?thesis
      by (simp add: correlate_hit owners_Cons touch_all_Cons del: correlate.simps)
  qed
qed

lemma correlate_raises:
  "\<exists>p \<in> set ps. raises qo p \<Longrightarrow> \<exists>e. correlate qo now ps d = Inl e"
proof (induction ps arbitrary: d)
  case Nil
  then show ?case by simp
next
  case (Cons p ps)
  show ?case
  proof (cases "raises qo p")
    case True
    then show ?thesis by (auto simp: raises_def split: sum.splits)
  next
    case False
    with Cons.prems have rest: "\<exists>p \<in> set ps. raises qo p" by simp
    show ?thesis
    proof (cases "owner qo p")
      case None
      with False Cons.IH [OF rest] show ?thesis
        by (simp add: correlate_skip del: correlate.simps)
    next
      case (Some n)
      with Cons.IH [OF rest] show ?thesis
        by (simp add: correlate_hit del: correlate.simps)
    qed
  qed
qed

lemma scan_running_ok:
  assumes "collect entries [] = Inr ps" and "\<forall>p \<in> set ps. \<not> raises qo p"
  shows "scan_running_processes (Inr entries) qo now d = (True, touch_all (owners qo ps) now d)"
  using assms by (simp add: scan_running_processes_def correlate_ok)

lemma scan_running_fails:
  assumes "collect entries [] = Inr ps" and "\<exists>p \<in> set ps. raises qo p"
  shows "scan_running_processes (Inr entries) qo now d = (False, d)"
proof -
  from correlate_raises [OF assms(2), of now d] obtain e
    where "correlate qo now ps d = Inl e" by blast
  with assms(1) show ?thesis
    by (simp add: scan_running_processes_def)
qed

lemma count_owners:
  "length (filter (\<lambda>m. m = n) (owners qo ps)) = length (filter (\<lambda>p. owner qo p = Some n) ps)"
  by (induction ps) (auto simp: owners_Nil owners_Cons split: option.splits)

text \<open>
  C2, amended: a correlate pass in which no lookup raises an uncaught exception returns
  \<^verbatim>\<open>True\<close>, sets \<open>last_seen\<close> of every stored package that a path resolves to, and
  appends one \<^verbatim>\<open>process_scan\<close> row per resolved path: the number of new rows of a
  package is the number of paths that resolve to it.
\<close>

theorem one_event_per_path:
  assumes "collect entries [] = Inr ps" and "\<forall>p \<in> set ps. \<not> raises qo p"
  shows "\<exists>d'. scan_running_processes (Inr entries) qo now d = (True, d')
      \<and> usage_events d' = usage_events d @ map (\<lambda>n. scan_event n now) (owners qo ps)
      \<and> packages d' = map (\<lambda>r. if name r \<in> set (owners qo ps) then r\<lparr>last_seen := Iso now\<rparr> else r)
                          (packages d)
      \<and> (\<forall>n. length (filter (\<lambda>ev. package_name ev = n) (map (\<lambda>n. scan_event n now) (owners qo ps)))
             = length (filter (\<lambda>p. owner qo p = Some n) ps))"
proof -
  have cnt: "length (filter (\<lambda>ev. package_name ev = n) (map (\<lambda>n. scan_event n now) (owners qo ps)))
      = length (filter (\<lambda>p. owner qo p = Some n) ps)" for n
  proof -
    have "filter (\<lambda>ev. package_name ev = n) (map (\<lambda>n. scan_event n now) (owners qo ps))
        = map (\<lambda>n. scan_event n now) (filter (\<lambda>m. m = n) (owners qo ps))"
      by (simp add: filter_map comp_def scan_event_def)
    then show ?thesis by (simp add: count_owners)
  qed
  have run: "scan_running_processes (Inr entries) qo now d = (True, touch_all (owners qo ps) now d)"
    using assms by (rule scan_running_ok)
  have ev: "usage_events (touch_all (owners qo ps) now d)
      = usage_events d @ map (\<lambda>n. scan_event n now) (owners qo ps)"
    by (simp add: touch_all_def)
  have pk: "packages (touch_all (owners qo ps) now d)
      = map (\<lambda>r. if name r \<in> set (owners qo ps) then r\<lparr>last_seen := Iso now\<rparr> else r) (packages d)"
    by (simp add: touch_all_def)
  show ?thesis
    by (intro exI [of _ "touch_all (owners qo ps) now d"] conjI allI) (rule run ev pk cnt)+
qed

theorem one_event_per_path_witness:
  "collect proc_demo [] = Inr [''/usr/bin/bash'', ''/usr/bin/sh'']
   \<and> \<not> raises qo_demo ''/usr/bin/bash'' \<and> \<not> raises qo_demo ''/usr/bin/sh''
   \<and> owners qo_demo [''/usr/bin/bash'', ''/usr/bin/sh''] = [''bash'', ''bash'']
   \<and> (\<exists>d'. scan_running_processes (Inr proc_demo) qo_demo 7 db_bash = (True, d')
        \<and> usage_events d' = [scan_event ''bash'' 7, scan_event ''bash'' 7]
        \<and> packages d' = [pkg ''bash'' True (Iso 7)])"
proof -
  have c: "collect proc_demo [] = Inr [''/usr/bin/bash'', ''/usr/bin/sh'']"
    by code_simp
  have r: "\<forall>p \<in> set [''/usr/bin/bash'', ''/usr/bin/sh'']. \<not> raises qo_demo p"
    by code_simp
  have ow: "owners qo_demo [''/usr/bin/bash'', ''/usr/bin/sh''] = [''bash'', ''bash'']"
    by code_simp
  from one_event_per_path [OF c r, of 7 db_bash] obtain d'
    where run: "scan_running_processes (Inr proc_demo) qo_demo 7 db_bash = (True, d')"
      and ev: "usage_events d' = usage_events db_bash
          @ map (\<lambda>n. scan_event n 7) (owners qo_demo [''/usr/bin/bash'', ''/usr/bin/sh''])"
      and pk: "packages d' = map (\<lambda>r. if name r \<in> set (owners qo_demo [''/usr/bin/bash'', ''/usr/bin/sh''])
          then r\<lparr>last_seen := Iso 7\<rparr> else r) (packages db_bash)"
    by blast
  from ev have ev': "usage_events d' = [scan_event ''bash'' 7, scan_event ''bash'' 7]"
    unfolding ow by (simp add: db_bash_def)
  from pk have pk': "packages d' = [pkg ''bash'' True (Iso 7)]"
    unfolding ow by (simp add: db_bash_def pkg_def)
  from r have "\<not> raises qo_demo ''/usr/bin/bash''" "\<not> raises qo_demo ''/usr/bin/sh''"
    by simp_all
  with c ow run ev' pk' show ?thesis by blast
qed

text \<open>
  Two running processes whose paths resolve to the same package: the pass appends two
  event rows for it, not one.
\<close>

theorem one_event_per_package_counterexample:
  "scan_running_processes (Inr proc_demo) qo_demo 7 db_bash
     = (True, \<lparr>packages = [pkg ''bash'' True (Iso 7)],
               usage_events = [scan_event ''bash'' 7, scan_event ''bash'' 7]\<rparr>)"
  by code_simp

lemma update_last_seen_unknown:
  "n \<notin> name ` set rows \<Longrightarrow> update_last_seen rows t n = rows"
  by (induction rows) (auto simp: update_last_seen_def)

lemma names_touch_all: "map name (packages (touch_all ns now d)) = map name (packages d)"
  by (simp add: touch_all_def comp_def if_distrib cong: if_cong)

lemma owner_in_owners: "p \<in> set ps \<Longrightarrow> owner qo p = Some n \<Longrightarrow> n \<in> set (owners qo ps)"
  by (induction ps) (auto simp: owners_Cons split: option.splits)

text \<open>
  C4, amended: in a correlate pass that completes, that is, one in which no lookup
  raises an exception that the inner \<^verbatim>\<open>except\<close> does not catch, when a path resolves
  to a name that is not stored, the UPDATE for that name changes no row, the pass
  creates no row, leaves the rows of the packages that no path resolves to as they are
  and returns \<^verbatim>\<open>True\<close>, and the usage event of that name is among the rows appended.
\<close>

theorem unknown_package_event_recorded:
  assumes "collect entries [] = Inr ps" and "\<forall>p \<in> set ps. \<not> raises qo p"
    and "p \<in> set ps" and "owner qo p = Some n" and "n \<notin> name ` set (packages d)"
  shows "update_last_seen (packages d) (Iso now) n = packages d
      \<and> (\<exists>d'. scan_running_processes (Inr entries) qo now d = (True, d')
            \<and> map name (packages d') = map name (packages d)
            \<and> (\<forall>r \<in> set (packages d). name r \<notin> set (owners qo ps) \<longrightarrow> r \<in> set (packages d'))
            \<and> scan_event n now \<in> set (drop (length (usage_events d)) (usage_events d')))"
proof -
  have "update_last_seen (packages d) (Iso now) n = packages d"
    using assms(5) by (rule update_last_seen_unknown)
  moreover have "scan_running_processes (Inr entries) qo now d = (True, touch_all (owners qo ps) now d)"
    using assms(1,2) by (rule scan_running_ok)
  moreover have "map name (packages (touch_all (owners qo ps) now d)) = map name (packages d)"
    by (rule names_touch_all)
  moreover have "\<forall>r \<in> set (packages d). name r \<notin> set (owners qo ps)
      \<longrightarrow> r \<in> set (packages (touch_all (owners qo ps) now d))"
    by (auto simp: touch_all_def)
  moreover have "scan_event n now
      \<in> set (drop (length (usage_events d)) (usage_events (touch_all (owners qo ps) now d)))"
    using owner_in_owners [OF assms(3,4)] by (simp add: touch_all_def)
  ultimately show ?thesis by blast
qed

theorem unknown_package_event_recorded_witness:
  "collect proc_ghost [] = Inr [''/opt/tool'']
   \<and> \<not> raises qo_demo ''/opt/tool''
   \<and> owner qo_demo ''/opt/tool'' = Some ''ghost''
   \<and> ''ghost'' \<notin> name ` set (packages db_bash)
   \<and> update_last_seen (packages db_bash) (Iso 7) ''ghost'' = packages db_bash
   \<and> (\<exists>d'. scan_running_processes (Inr proc_ghost) qo_demo 7 db_bash = (True, d')
        \<and> map name (packages d') = [''bash'']
        \<and> scan_event ''ghost'' 7 \<in> set (usage_events d'))"
proof -
  have c: "collect proc_ghost [] = Inr [''/opt/tool'']"
    by code_simp
  have r: "\<forall>p \<in> set [''/opt/tool'']. \<not> raises qo_demo p"
    by code_simp
  have i: "''/opt/tool'' \<in> set [''/opt/tool'']" by simp
  have ow: "owner qo_demo ''/opt/tool'' = Some ''ghost''"
    by code_simp
  have un: "''ghost'' \<notin> name ` set (packages db_bash)"
    by (simp add: db_bash_def pkg_def)
  from unknown_package_event_recorded [OF c r i ow un, of 7]
  have "update_last_seen (packages db_bash) (Iso 7) ''ghost'' = packages db_bash"
    and "\<exists>d'. scan_running_processes (Inr proc_ghost) qo_demo 7 db_bash = (True, d')
        \<and> map name (packages d') = [''bash'']
        \<and> scan_event ''ghost'' 7 \<in> set (usage_events d')"
    by (auto simp: db_bash_def pkg_def)
  moreover from r have "\<not> raises qo_demo ''/opt/tool''" by simp
  ultimately show ?thesis using c ow un by blast
qed

text \<open>
  A process of a package that is not stored: the rows of \<^verbatim>\<open>packages\<close> stay as they
  are, and the event row is appended all the same.
\<close>

theorem unknown_package_event_dropped_counterexample:
  "scan_running_processes (Inr proc_ghost) qo_demo 7 db_bash
     = (True, \<lparr>packages = [pkg ''bash'' True (Iso 3)],
               usage_events = [scan_event ''ghost'' 7]\<rparr>)"
  by code_simp

subsection \<open>The scan cycle\<close>

text \<open>
  C8, amended: whenever \<^verbatim>\<open>scan_installed_packages\<close> returns, with \<^verbatim>\<open>True\<close> or
  with \<^verbatim>\<open>False\<close>, the cycle runs \<^verbatim>\<open>scan_running_processes\<close> on the database it
  left, and reports success exactly when both results are \<^verbatim>\<open>True\<close>
  (\<^verbatim>\<open>main\<close> exits with status 0 exactly then).
\<close>

theorem scan_cycle_runs_both:
  assumes "scan_installed_packages qqe qi clock d = (Inr pkg_result, d1)"
  shows "do_GET_api_scan qqe qi clock proc qo now d
      = (Inr (pkg_result \<and> fst (scan_running_processes proc qo now d1)),
         snd (scan_running_processes proc qo now d1))
    \<and> main_scan_only qqe qi clock proc qo now d
      = (Inr (if pkg_result \<and> fst (scan_running_processes proc qo now d1) then 0 else 1),
         snd (scan_running_processes proc qo now d1))"
  using assms
  by (cases "scan_running_processes proc qo now d1")
     (simp add: do_GET_api_scan_def main_scan_only_def)

theorem scan_cycle_runs_both_witness:
  "scan_installed_packages (Inl CalledProcessError) (Inr qi_demo) clock_demo db_bash = (Inr False, db_bash)
   \<and> scan_running_processes (Inr proc_demo) qo_demo 7 db_bash
       = (True, \<lparr>packages = [pkg ''bash'' True (Iso 7)],
                 usage_events = [scan_event ''bash'' 7, scan_event ''bash'' 7]\<rparr>)
   \<and> do_GET_api_scan (Inl CalledProcessError) (Inr qi_demo) clock_demo (Inr proc_demo) qo_demo 7 db_bash
       = (Inr False, \<lparr>packages = [pkg ''bash'' True (Iso 7)],
                       usage_events = [scan_event ''bash'' 7, scan_event ''bash'' 7]\<rparr>)
   \<and> main_scan_only (Inl CalledProcessError) (Inr qi_demo) clock_demo (Inr proc_demo) qo_demo 7 db_bash
       = (Inr 1, \<lparr>packages = [pkg ''bash'' True (Iso 7)],
                   usage_events = [scan_event ''bash'' 7, scan_event ''bash'' 7]\<rparr>)"
proof -
  have a: "scan_installed_packages (Inl CalledProcessError) (Inr qi_demo) clock_demo db_bash
      = (Inr False, db_bash)"
    by (simp add: scan_installed_packages_def)
  have b: "scan_running_processes (Inr proc_demo) qo_demo 7 db_bash
       = (True, \<lparr>packages = [pkg ''bash'' True (Iso 7)],
                 usage_events = [scan_event ''bash'' 7, scan_event ''bash'' 7]\<rparr>)"
    by code_simp
  from scan_cycle_runs_both [OF a, of "Inr proc_demo" qo_demo 7] a b show ?thesis
    by simp
qed

text \<open>
  Without a \<^verbatim>\<open>pacman\<close> executable \<^verbatim>\<open>scan_installed_packages\<close> raises an
  \<^verbatim>\<open>OSError\<close>, which it does not catch: the cycle ends there, and the correlate
  pass, which would have changed the database, is not run.
\<close>

theorem scan_cycle_always_both_counterexample:
  "do_GET_api_scan (Inl OSError) (Inr qi_demo) clock_demo (Inr proc_demo) qo_demo 7 db_bash
     = (Inl OSError, db_bash)
   \<and> main_scan_only (Inl OSError) (Inr qi_demo) clock_demo (Inr proc_demo) qo_demo 7 db_bash
     = (Inl OSError, db_bash)
   \<and> snd (scan_running_processes (Inr proc_demo) qo_demo 7 db_bash) \<noteq> db_bash"
proof -
  have "scan_installed_packages (Inl OSError) (Inr qi_demo) clock_demo db_bash = (Inl OSError, db_bash)"
    by (simp add: scan_installed_packages_def)
  then have "do_GET_api_scan (Inl OSError) (Inr qi_demo) clock_demo (Inr proc_demo) qo_demo 7 db_bash
     = (Inl OSError, db_bash)"
    "main_scan_only (Inl OSError) (Inr qi_demo) clock_demo (Inr proc_demo) qo_demo 7 db_bash
     = (Inl OSError, db_bash)"
    by (simp_all add: do_GET_api_scan_def main_scan_only_def)
  moreover have "scan_running_processes (Inr proc_demo) qo_demo 7 db_bash
     = (True, \<lparr>packages = [pkg ''bash'' True (Iso 7)],
               usage_events = [scan_event ''bash'' 7, scan_event ''bash'' 7]\<rparr>)"
    by code_simp
  then have "snd (scan_running_processes (Inr proc_demo) qo_demo 7 db_bash) \<noteq> db_bash"
    by (simp add: db_bash_def)
  ultimately show ?thesis by blast
qed

end
